theory Spec2Isabelle
  imports Main "HOL-Library.Word"
begin

section \<open>Strings of the host language\<close>

text \<open>
  A string of the source language is a sequence of 16-bit code units, and its
  \<open>length\<close> counts code units. String literals of the source are written
  \<open>js ''...''\<close>; a string is falsy exactly when it is empty.
\<close>

type_synonym code_unit = "16 word"
type_synonym jsstring = "code_unit list"

definition js :: "string \<Rightarrow> jsstring" where
  "js s = map of_char s"

text \<open>\<open>Array.prototype.join\<close> on an array of strings.\<close>

fun join :: "jsstring \<Rightarrow> jsstring list \<Rightarrow> jsstring" where
  "join sep [] = []"
| "join sep [x] = x"
| "join sep (x # y # ys) = x @ sep @ join sep (y # ys)"

text \<open>\<open>s.startsWith(p)\<close>, \<open>s.endsWith(p)\<close> and \<open>s.includes(p)\<close>.\<close>

definition startsWith :: "jsstring \<Rightarrow> jsstring \<Rightarrow> bool" where
  "startsWith s p = (take (length p) s = p)"

definition endsWith :: "jsstring \<Rightarrow> jsstring \<Rightarrow> bool" where
  "endsWith s p = (length p \<le> length s \<and> drop (length s - length p) s = p)"

fun includes_str :: "jsstring \<Rightarrow> jsstring \<Rightarrow> bool" where
  "includes_str [] p = (p = [])"
| "includes_str (c # cs) p = (startsWith (c # cs) p \<or> includes_str cs p)"

text \<open>
  The code units matched by \<open>\s\<close> in a regular expression without the unicode
  flag, which are also the code units \<open>String.prototype.trim\<close> strips: the
  white space and line terminator code points of the language, all in the basic plane.
\<close>

definition isWhiteSpace :: "code_unit \<Rightarrow> bool" where
  "isWhiteSpace c =
     (c \<in> set [0x0009, 0x000A, 0x000B, 0x000C, 0x000D, 0x0020, 0x00A0, 0x1680,
                0x2028, 0x2029, 0x202F, 0x205F, 0x3000, 0xFEFF]
      \<or> (0x2000 \<le> c \<and> c \<le> 0x200A))"

definition trim :: "jsstring \<Rightarrow> jsstring" where
  "trim s = rev (dropWhile isWhiteSpace (rev (dropWhile isWhiteSpace s)))"

text \<open>
  The code units the dot of a regular expression does not match (no \<open>s\<close> flag).
\<close>

definition isLineTerminator :: "code_unit \<Rightarrow> bool" where
  "isLineTerminator c = (c \<in> set [0x000A, 0x000D, 0x2028, 0x2029])"

text \<open>
  \<open>s.substring(start, end)\<close>: both indices are clamped to the string and swapped
  when the first is the larger one.
\<close>

definition substring :: "jsstring \<Rightarrow> int \<Rightarrow> int \<Rightarrow> jsstring" where
  "substring s start end =
     (let len = int (length s);
          finalStart = min (max start 0) len;
          finalEnd = min (max end 0) len;
          from = min finalStart finalEnd;
          to = max finalStart finalEnd
      in take (nat (to - from)) (drop (nat from) s))"

section \<open>Data model of the chat view\<close>

record UploadedFile =
  name :: jsstring
  type :: jsstring
  base64Data :: jsstring
  isImage :: bool

datatype Role = User | Model

text \<open>The field \<open>files\<close> is optional in the source: \<open>None\<close> is \<open>undefined\<close>.\<close>

record Message =
  role :: Role
  content :: jsstring
  files :: "UploadedFile list option"

text \<open>
  \<open>InlineData mimeType data\<close> is the part \<open>{inlineData: {mimeType, data}}\<close> and
  \<open>Text t\<close> is the part \<open>{text: t}\<close>.
\<close>

datatype Part = InlineData jsstring jsstring | Text jsstring

record Content =
  c_role :: Role
  parts :: "Part list"

section \<open>Request builder\<close>

text \<open>
  The callback of \<open>updatedMessages.map\<close> in \<open>handleSendMessage\<close>: the parts of
  one message. The first component of the pair is the array \<open>parts\<close> after the
  image loop, the second is \<open>textContent\<close> after the two substitutions.
\<close>

definition messageParts :: "Message \<Rightarrow> Part list" where
  "messageParts msg =
     (let (parts, textContent) =
        (case files msg of
           None \<Rightarrow> ([], content msg)
         | Some fs \<Rightarrow>
             if length fs > 0 then
               (let parts = map (\<lambda>file. InlineData (type file) (base64Data file))
                              (filter (\<lambda>f. isImage f) fs);
                    nonImageFiles = filter (\<lambda>f. \<not> isImage f) fs;
                    textContent =
                      (if length nonImageFiles > 0
                       then content msg
                            @ [0x0A, 0x0A]
                            @ js ''(For context, the following files were also attached: ''
                            @ join (js '', '') (map name nonImageFiles)
                            @ js ''. You cannot read their contents.)''
                       else content msg);
                    textContent =
                      (if list_ex (\<lambda>f. isImage f) fs \<and> textContent = []
                       then js ''Describe the attached image(s).''
                       else textContent)
                in (parts, textContent))
             else ([], content msg))
      in if textContent \<noteq> [] then parts @ [Text textContent] else parts)"

definition toContent :: "Message \<Rightarrow> Content" where
  "toContent msg = \<lparr>c_role = role msg, parts = messageParts msg\<rparr>"

text \<open>The value of \<open>contents\<close>: the mapped messages, filtered on \<open>c.parts.length > 0\<close>.\<close>

definition buildContents :: "Message list \<Rightarrow> Content list" where
  "buildContents updatedMessages =
     filter (\<lambda>c. length (parts c) > 0) (map toContent updatedMessages)"

section \<open>Credential store\<close>

text \<open>
  \<open>getApiKey\<close> reads the item \<open>gemini-api-key\<close> of local storage and the build-time
  value \<open>process.env.API_KEY\<close> (\<open>None\<close> when it is undefined). \<open>orNull x\<close> is the
  expression \<open>x || null\<close> on an optional string.
\<close>

definition orNull :: "jsstring option \<Rightarrow> jsstring option" where
  "orNull x = (case x of None \<Rightarrow> None | Some d \<Rightarrow> if d \<noteq> [] then Some d else None)"

definition getApiKey :: "jsstring option \<Rightarrow> (jsstring \<rightharpoonup> jsstring) \<Rightarrow> jsstring option" where
  "getApiKey env_API_KEY localStorage =
     (case localStorage (js ''gemini-api-key'') of
        Some userApiKey \<Rightarrow> if userApiKey \<noteq> [] then Some userApiKey else orNull env_API_KEY
      | None \<Rightarrow> orNull env_API_KEY)"

section \<open>State of the page\<close>

text \<open>
  The state the handlers read and write: the browser's local storage and the
  messages passed to \<open>alert\<close> (oldest first), the state of the chat view
  (\<open>messages\<close>, \<open>inputValue\<close>, \<open>isLoading\<close>, \<open>uploadedFiles\<close>, and the files handed to a
  file reader that has not finished yet), and the state of the API-key tab of the
  settings dialog.
\<close>

record File =
  fname :: jsstring
  ftype :: jsstring

record AppState =
  localStorage :: "jsstring \<rightharpoonup> jsstring"
  alerts :: "jsstring list"
  messages :: "Message list"
  inputValue :: jsstring
  isLoading :: bool
  uploadedFiles :: "UploadedFile list"
  reading :: "File list"
  apiKeyInput :: jsstring
  savedApiKey :: "jsstring option"
  apiKeyError :: "jsstring option"

text \<open>The state of a freshly loaded page with nothing in local storage.\<close>

definition initialState :: AppState where
  "initialState =
     \<lparr>localStorage = Map.empty, alerts = [], messages = [], inputValue = [],
      isLoading = False, uploadedFiles = [], reading = [], apiKeyInput = [],
      savedApiKey = None, apiKeyError = None\<rparr>"

section \<open>Settings dialog: saving and removing the key\<close>

definition handleSaveApiKey :: "AppState \<Rightarrow> AppState" where
  "handleSaveApiKey st =
     (let keyToSave = trim (apiKeyInput st) in
      if length keyToSave \<noteq> 39 \<or> list_ex isWhiteSpace keyToSave then
        st\<lparr>apiKeyError :=
             Some (js ''Invalid API Key format. Please enter a valid 39-character key.'')\<rparr>
      else
        st\<lparr>localStorage := (localStorage st)(js ''gemini-api-key'' \<mapsto> keyToSave),
           savedApiKey := Some keyToSave,
           apiKeyInput := [],
           apiKeyError := None,
           alerts := alerts st @ [js ''API Key saved successfully!'']\<rparr>)"

definition handleRemoveApiKey :: "AppState \<Rightarrow> AppState" where
  "handleRemoveApiKey st =
     st\<lparr>localStorage := (localStorage st)(js ''gemini-api-key'' := None),
        savedApiKey := None,
        alerts := alerts st
          @ [js ''API Key removed. The application will now use its default key.'']\<rparr>"

section \<open>Attachments\<close>

text \<open>
  \<open>handleFileUpload\<close> gets \<open>event.target.files\<close> (\<open>None\<close> when it is null). It
  starts one reader per file of an accepted batch; \<open>readerLoaded\<close> is the
  \<open>onload\<close> callback of one reader, where \<open>base64String\<close> is the text after the
  first comma of the data URL the reader produced.
\<close>

definition handleFileUpload :: "File list option \<Rightarrow> AppState \<Rightarrow> AppState" where
  "handleFileUpload targetFiles st =
     (case targetFiles of
        None \<Rightarrow> st
      | Some fs \<Rightarrow>
          if length (uploadedFiles st) + length fs > 3 then
            st\<lparr>alerts := alerts st @ [js ''You can upload a maximum of 3 files.'']\<rparr>
          else st\<lparr>reading := reading st @ fs\<rparr>)"

definition readerLoaded :: "File \<Rightarrow> jsstring \<Rightarrow> AppState \<Rightarrow> AppState" where
  "readerLoaded file base64String st =
     (let newFile = \<lparr>name = fname file, type = ftype file, base64Data = base64String,
                      isImage = startsWith (ftype file) (js ''image/'')\<rparr>
      in st\<lparr>uploadedFiles := uploadedFiles st @ [newFile],
            reading := remove1 file (reading st)\<rparr>)"

section \<open>Streaming controller\<close>

text \<open>
  What the generation API does after the request is sent is an input of the model:
  the call fails with a thrown value, or it returns a stream. The stream is the
  sequence of what happens while the loop waits: a chunk arrives (\<open>chunk.text\<close> may
  be undefined), the stop button is pressed, or the stream fails.
\<close>

datatype Thrown = Error jsstring | NotAnError

datatype StreamEvent = Chunk "jsstring option" | StopPressed | StreamFails Thrown

datatype ApiOutcome = CallFails Thrown | Stream "StreamEvent list"

text \<open>The state updater of the loop body, applied to the current messages.\<close>

definition appendFragment :: "jsstring \<Rightarrow> Message list \<Rightarrow> Message list" where
  "appendFragment text prev =
     (let newMsgs = prev in
      if newMsgs = [] then newMsgs
      else
        (let lastMsg = newMsgs ! (length newMsgs - 1) in
         if role lastMsg = Model
         then newMsgs[length newMsgs - 1 := lastMsg\<lparr>content := content lastMsg @ text\<rparr>]
         else newMsgs))"

text \<open>
  The \<open>for await\<close> loop, started with the flag \<open>shouldStop\<close>. It returns the value
  thrown by the stream, if any, and the messages it leaves. A failure of the
  stream is raised while the loop waits for the next chunk, before the flag is read.
\<close>

fun streamLoop :: "bool \<Rightarrow> Message list \<Rightarrow> StreamEvent list \<Rightarrow> Thrown option \<times> Message list" where
  "streamLoop shouldStop msgs [] = (None, msgs)"
| "streamLoop shouldStop msgs (StopPressed # es) = streamLoop True msgs es"
| "streamLoop shouldStop msgs (StreamFails e # es) = (Some e, msgs)"
| "streamLoop shouldStop msgs (Chunk text # es) =
     (if shouldStop then (None, msgs)
      else (case text of
              None \<Rightarrow> streamLoop shouldStop msgs es
            | Some t \<Rightarrow>
                if t \<noteq> [] then streamLoop shouldStop (appendFragment t msgs) es
                else streamLoop shouldStop msgs es))"

text \<open>The \<open>catch\<close> block: the text shown for a thrown value, and the state updater.\<close>

definition errorMessageFor :: "Thrown \<Rightarrow> jsstring" where
  "errorMessageFor error =
     (case error of
        Error message \<Rightarrow>
          if includes_str message (js ''API key not valid'')
          then js ''Your API key is invalid. Please check it in the Settings menu.''
          else js ''Sorry, I encountered an error. Please try again.''
      | NotAnError \<Rightarrow> js ''Sorry, I encountered an error. Please try again.'')"

definition reportError :: "jsstring \<Rightarrow> Message list \<Rightarrow> Message list" where
  "reportError errorMessage prev =
     (let newMsgs = prev in
      if newMsgs \<noteq> []
         \<and> role (newMsgs ! (length newMsgs - 1)) = Model
         \<and> content (newMsgs ! (length newMsgs - 1)) = []
      then newMsgs[length newMsgs - 1 :=
                     (newMsgs ! (length newMsgs - 1))\<lparr>content := errorMessage\<rparr>]
      else newMsgs @ [\<lparr>role = Model, content = errorMessage, files = None\<rparr>])"

text \<open>
  \<open>handleSendMessage\<close> from the submit to the end of the \<open>finally\<close> block, with the
  optional \<open>prompt\<close> argument, the build-time key and the behaviour of the API.
\<close>

definition handleSendMessage ::
  "jsstring option \<Rightarrow> (Content list \<Rightarrow> ApiOutcome) \<Rightarrow> jsstring option \<Rightarrow> AppState \<Rightarrow> AppState" where
  "handleSendMessage env_API_KEY api prompt st =
     (let currentInput = trim (case orNull prompt of Some p \<Rightarrow> p | None \<Rightarrow> inputValue st) in
      if (currentInput = [] \<and> length (uploadedFiles st) = 0) \<or> isLoading st then st
      else
        (case getApiKey env_API_KEY (localStorage st) of
           None \<Rightarrow>
             st\<lparr>alerts := alerts st
                  @ [js (''No API Key configured. Please add your Gemini API Key in the ''
                         @ ''Settings menu (bottom left) to continue.'')]\<rparr>
         | Some apiKey \<Rightarrow>
             (let userMessage = \<lparr>role = User, content = currentInput,
                                  files = Some (uploadedFiles st)\<rparr>;
                  updatedMessages = messages st @ [userMessage];
                  contents = buildContents updatedMessages;
                  finalMessages =
                    (case api contents of
                       CallFails error \<Rightarrow> reportError (errorMessageFor error) updatedMessages
                     | Stream events \<Rightarrow>
                         (case streamLoop False
                                 (updatedMessages @ [\<lparr>role = Model, content = [], files = None\<rparr>])
                                 events of
                            (None, msgs) \<Rightarrow> msgs
                          | (Some error, msgs) \<Rightarrow> reportError (errorMessageFor error) msgs))
              in st\<lparr>messages := finalMessages,
                    inputValue := (if orNull prompt = None then [] else inputValue st),
                    uploadedFiles := [],
                    isLoading := False\<rparr>)))"

text \<open>
  The fragments the loop appends for a sequence of events, in the words of the
  specification: the texts of the chunks that arrive before the stop
  button is pressed and before the stream fails.
\<close>

fun fragmentsBeforeStop :: "StreamEvent list \<Rightarrow> jsstring list" where
  "fragmentsBeforeStop [] = []"
| "fragmentsBeforeStop (StopPressed # es) = []"
| "fragmentsBeforeStop (StreamFails e # es) = []"
| "fragmentsBeforeStop (Chunk None # es) = fragmentsBeforeStop es"
| "fragmentsBeforeStop (Chunk (Some t) # es) = t # fragmentsBeforeStop es"

text \<open>
  The value the loop is left with by a failing stream, in the words of the
  specification: the value thrown by the first failure of the stream that
  happens while the loop still waits for a chunk, that is, before a chunk arrives
  with the stop flag set.
\<close>

fun thrownBeforeBreak :: "bool \<Rightarrow> StreamEvent list \<Rightarrow> Thrown option" where
  "thrownBeforeBreak shouldStop [] = None"
| "thrownBeforeBreak shouldStop (StopPressed # es) = thrownBeforeBreak True es"
| "thrownBeforeBreak shouldStop (StreamFails e # es) = Some e"
| "thrownBeforeBreak shouldStop (Chunk frag # es) =
     (if shouldStop then None else thrownBeforeBreak shouldStop es)"

section \<open>Markdown-subset renderer\<close>

text \<open>
  The pattern of \<open>MarkdownRenderer\<close> is one group of four alternatives, each an
  opening delimiter, a lazy repetition and the same delimiter closing it: a fence
  of three backticks around any code units, and \<open>**\<close>, \<open>*\<close> and one backtick
  around code units other than line terminators.

  \<open>lazyUntil ok close s\<close> is the lazy repetition followed by the closing
  delimiter: the shortest prefix of \<open>s\<close> made of code units satisfying \<open>ok\<close> and
  then \<open>close\<close>, returned with \<open>close\<close> and with the rest of \<open>s\<close>.
\<close>

fun lazyUntil ::
  "(code_unit \<Rightarrow> bool) \<Rightarrow> jsstring \<Rightarrow> jsstring \<Rightarrow> (jsstring \<times> jsstring) option" where
  "lazyUntil ok close [] = (if close = [] then Some ([], []) else None)"
| "lazyUntil ok close (c # cs) =
     (if startsWith (c # cs) close then Some (close, drop (length close) (c # cs))
      else if ok c then
        (case lazyUntil ok close cs of
           None \<Rightarrow> None
         | Some (m, rest) \<Rightarrow> Some (c # m, rest))
      else None)"

definition matchDelimited ::
  "jsstring \<Rightarrow> (code_unit \<Rightarrow> bool) \<Rightarrow> jsstring \<Rightarrow> (jsstring \<times> jsstring) option" where
  "matchDelimited d ok s =
     (if d \<noteq> [] \<and> startsWith s d then
        (case lazyUntil ok d (drop (length d) s) of
           None \<Rightarrow> None
         | Some (m, rest) \<Rightarrow> Some (d @ m, rest))
      else None)"

text \<open>
  A match of the pattern at the start of \<open>s\<close>: the first alternative that
  matches, with the matched text and the rest of \<open>s\<close>.
\<close>

definition matchPattern :: "jsstring \<Rightarrow> (jsstring \<times> jsstring) option" where
  "matchPattern s =
     (case matchDelimited (js ''```'') (\<lambda>c. True) s of
        Some r \<Rightarrow> Some r
      | None \<Rightarrow>
     (case matchDelimited (js ''**'') (\<lambda>c. \<not> isLineTerminator c) s of
        Some r \<Rightarrow> Some r
      | None \<Rightarrow>
     (case matchDelimited (js ''*'') (\<lambda>c. \<not> isLineTerminator c) s of
        Some r \<Rightarrow> Some r
      | None \<Rightarrow> matchDelimited (js ''`'') (\<lambda>c. \<not> isLineTerminator c) s)))"

text \<open>
  \<open>content.split(pattern)\<close>: the loop of the split algorithm, where \<open>pending\<close> is
  the text since the end of the last match. At a match it emits the pending text
  and the captured group, which is the whole match; where nothing matches it
  moves on by one code unit; at the end it emits the pending text.
\<close>

function splitLoop :: "jsstring \<Rightarrow> jsstring \<Rightarrow> jsstring list" where
  "splitLoop pending [] = [pending]"
| "splitLoop pending (c # cs) =
     (case matchPattern (c # cs) of
        None \<Rightarrow> splitLoop (pending @ [c]) cs
      | Some (m, rest) \<Rightarrow> pending # m # splitLoop [] rest)"
  by pat_completeness auto
termination
proof (relation "measure (\<lambda>(pending, s). length s)")
  fix pending :: jsstring and c cs x2 m rest
  assume found: "matchPattern (c # cs) = Some x2" and pair: "(m, rest) = x2"
  have lazy: "length r \<le> length s" if "lazyUntil ok d s = Some (k, r)" for ok d s k r
    using that
  proof (induction s arbitrary: k)
    case Nil
    then show ?case by (simp split: if_splits)
  next
    case (Cons a s)
    show ?case
    proof (cases "startsWith (a # s) d")
      case True
      with Cons.prems show ?thesis by auto
    next
      case False
      with Cons.prems obtain k' where "lazyUntil ok d s = Some (k', r)"
        by (auto split: if_splits option.splits)
      then have "length r \<le> length s" by (rule Cons.IH)
      then show ?thesis by simp
    qed
  qed
  have delim: "length r < length s" if "matchDelimited d ok s = Some (k, r)" for d ok s k r
  proof -
    from that have d: "d \<noteq> []" and sw: "startsWith s d"
      by (simp_all add: matchDelimited_def split: if_splits)
    with that obtain k' where l: "lazyUntil ok d (drop (length d) s) = Some (k', r)"
      by (auto simp: matchDelimited_def split: option.splits)
    from sw have "length (take (length d) s) = length d"
      by (simp add: startsWith_def)
    then have le: "length d \<le> length s" by simp
    from l have "length r \<le> length (drop (length d) s)" by (rule lazy)
    then have "length r \<le> length s - length d" by simp
    moreover from d have "0 < length d" by simp
    ultimately show ?thesis using le by linarith
  qed
  from found pair have "matchPattern (c # cs) = Some (m, rest)" by simp
  then have "length rest < length (c # cs)"
    unfolding matchPattern_def by (auto split: option.splits dest: delim)
  then show "(([], rest), pending, c # cs) \<in> measure (\<lambda>(pending, s). length s)"
    by simp
qed simp_all

definition splitPattern :: "jsstring \<Rightarrow> jsstring list" where
  "splitPattern str = splitLoop [] str"

text \<open>
  What the renderer returns for one part: \<open>Pre\<close> is the \<open>pre\<close> block with its
  \<open>code\<close> child, \<open>Strong\<close>, \<open>Em\<close> and \<open>Code\<close> are the inline elements with their
  text, and \<open>Literal\<close> is the part returned as it is.
\<close>

datatype Element = Pre jsstring | Strong jsstring | Em jsstring | Code jsstring | Literal jsstring

definition renderPart :: "jsstring \<Rightarrow> Element" where
  "renderPart part =
     (if startsWith part (js ''```'') \<and> endsWith part (js ''```'')
      then Pre (trim (substring part 3 (int (length part) - 3)))
      else if startsWith part (js ''**'') \<and> endsWith part (js ''**'')
      then Strong (substring part 2 (int (length part) - 2))
      else if startsWith part (js ''*'') \<and> endsWith part (js ''*'')
      then Em (substring part 1 (int (length part) - 1))
      else if startsWith part (js ''`'') \<and> endsWith part (js ''`'')
      then Code (substring part 1 (int (length part) - 1))
      else Literal part)"

text \<open>The children of the rendered block, before the cursor: \<open>elements\<close>.\<close>

definition markdownElements :: "jsstring \<Rightarrow> Element list" where
  "markdownElements str =
     map renderPart (filter (\<lambda>part. part \<noteq> []) (splitPattern str))"

text \<open>
  The pattern in the words of the specification. A token of a delimiter \<open>d\<close> is
  \<open>d\<close>, a body and \<open>d\<close> again, where every code unit of the body is allowed
  (\<open>ok\<close>) and \<open>d\<close> does not occur in the body followed by \<open>d\<close> before its end:
  the body is the shortest one. \<open>tokenPrefix d ok s\<close> says that \<open>s\<close> starts with
  such a token.
\<close>

definition isToken :: "jsstring \<Rightarrow> (code_unit \<Rightarrow> bool) \<Rightarrow> jsstring \<Rightarrow> bool" where
  "isToken d ok m =
     (2 * length d \<le> length m \<and> startsWith m d \<and> endsWith m d
      \<and> list_all ok (take (length m - 2 * length d) (drop (length d) m))
      \<and> \<not> includes_str (butlast (drop (length d) m)) d)"

definition tokenPrefix :: "jsstring \<Rightarrow> (code_unit \<Rightarrow> bool) \<Rightarrow> jsstring \<Rightarrow> bool" where
  "tokenPrefix d ok s = list_ex (\<lambda>n. isToken d ok (take n s)) [0..<Suc (length s)]"

text \<open>
  The text between the delimiters of a part of at least \<open>n\<close> code units that
  starts and ends with a delimiter of \<open>n\<close> code units. Where the two delimiters
  overlap, it is the overlap.
\<close>

definition between :: "nat \<Rightarrow> jsstring \<Rightarrow> jsstring" where
  "between n p =
     (if 2 * n \<le> length p then take (length p - 2 * n) (drop n p)
      else take (2 * n - length p) (drop (length p - n) p))"

section \<open>Properties of the request builder\<close>

lemma js_nonempty_note:
  "js ''(For context, the following files were also attached: '' \<noteq> []"
  by (simp add: js_def)

lemma messageParts_empty_iff:
  "messageParts m = [] \<longleftrightarrow> content m = [] \<and> (files m = None \<or> files m = Some [])"
  by (cases "files m")
     (auto simp: messageParts_def Let_def js_def list_ex_iff filter_empty_conv
           split: if_splits)

text \<open>
  Claim C2. The request builder is a function of the conversation snapshot. Its
  output is the transformed messages, in order, of exactly those messages whose
  computed parts list is not empty; a message has an empty parts list exactly
  when it has no text and no attachment; every emitted entry has at least one part.
\<close>

theorem buildContents_drops_exactly_empty:
  "buildContents msgs = map toContent (filter (\<lambda>m. messageParts m \<noteq> []) msgs)
   \<and> list_all (\<lambda>c. parts c \<noteq> []) (buildContents msgs)
   \<and> (messageParts m = [] \<longleftrightarrow> content m = [] \<and> (files m = None \<or> files m = Some []))"
proof -
  have kept: "buildContents msgs = map toContent (filter (\<lambda>m. messageParts m \<noteq> []) msgs)"
    by (induction msgs) (simp_all add: buildContents_def toContent_def)
  have nonempty: "list_all (\<lambda>c. parts c \<noteq> []) (buildContents msgs)"
    by (simp add: buildContents_def list_all_iff)
  from kept nonempty messageParts_empty_iff show ?thesis
    by blast
qed

theorem buildContents_drops_exactly_empty_witness:
  "buildContents [\<lparr>role = User, content = [], files = Some []\<rparr>,
                  \<lparr>role = User, content = js ''hi'', files = None\<rparr>]
     = [\<lparr>c_role = User, parts = [Text (js ''hi'')]\<rparr>]"
  using buildContents_drops_exactly_empty
    [of "[\<lparr>role = User, content = [], files = Some []\<rparr>,
          \<lparr>role = User, content = js ''hi'', files = None\<rparr>]"]
  by (simp add: toContent_def messageParts_def js_def)

text \<open>
  Claim C5, as the code has it. A message with at least one attachment, all of
  them images, and with empty text is not dropped: its parts are one inline-data
  part per image, in order, followed by one text part whose text is
  \<open>Describe the attached image(s).\<close>
\<close>

theorem image_only_message_default_instruction:
  assumes "files m = Some fs" and "fs \<noteq> []" and "list_all (\<lambda>f. isImage f) fs"
    and "content m = []"
  shows "messageParts m = map (\<lambda>f. InlineData (type f) (base64Data f)) fs
                          @ [Text (js ''Describe the attached image(s).'')]
         \<and> toContent m \<in> set (buildContents (before @ m # after))"
proof -
  have f: "filter (\<lambda>f. isImage f) fs = fs" "filter (\<lambda>f. \<not> isImage f) fs = []"
    using assms(3) by (simp_all add: list_all_iff)
  have e: "list_ex (\<lambda>f. isImage f) fs"
    using assms(2,3) by (cases fs) simp_all
  have p: "messageParts m = map (\<lambda>f. InlineData (type f) (base64Data f)) fs
                            @ [Text (js ''Describe the attached image(s).'')]"
    using assms(1,2,4) f e by (simp add: messageParts_def js_def)
  then have "messageParts m \<noteq> []" by simp
  then have "toContent m \<in> set (buildContents (before @ m # after))"
    by (simp add: buildContents_def toContent_def)
  with p show ?thesis by simp
qed

theorem image_only_message_default_instruction_witness:
  "buildContents
     [\<lparr>role = User, content = [],
       files = Some [\<lparr>name = js ''cat.png'', type = js ''image/png'',
                      base64Data = js ''iVBORw0KGgo='', isImage = True\<rparr>]\<rparr>]
   = [\<lparr>c_role = User,
       parts = [InlineData (js ''image/png'') (js ''iVBORw0KGgo=''),
                Text (js ''Describe the attached image(s).'')]\<rparr>]"
  using image_only_message_default_instruction
    [of "\<lparr>role = User, content = [],
          files = Some [\<lparr>name = js ''cat.png'', type = js ''image/png'',
                         base64Data = js ''iVBORw0KGgo='', isImage = True\<rparr>]\<rparr>"
        "[\<lparr>name = js ''cat.png'', type = js ''image/png'',
           base64Data = js ''iVBORw0KGgo='', isImage = True\<rparr>]" "[]" "[]"]
  by (simp add: buildContents_def toContent_def)

text \<open>
  The text part of such a message does not carry the text
  \<open>describe the attached images\<close>: for one PNG image and no text the parts are
  the image and the instruction as the source spells it.
\<close>

theorem image_only_message_instruction_text:
  "messageParts
     \<lparr>role = User, content = [],
      files = Some [\<lparr>name = js ''cat.png'', type = js ''image/png'',
                     base64Data = js ''iVBORw0KGgo='', isImage = True\<rparr>]\<rparr>
     = [InlineData (js ''image/png'') (js ''iVBORw0KGgo=''),
        Text (js ''Describe the attached image(s).'')]
   \<and> Text (js ''describe the attached images'')
       \<notin> set (messageParts
                \<lparr>role = User, content = [],
                 files = Some [\<lparr>name = js ''cat.png'', type = js ''image/png'',
                                base64Data = js ''iVBORw0KGgo='', isImage = True\<rparr>]\<rparr>)"
  by (simp add: messageParts_def js_def)

text \<open>
  Claim C6. For a message whose attachments are all non-image, no part is inline
  data. With at least one attachment the only part is one text part: the message
  text followed by the note that lists the file names, separated by a comma and a
  space. The parts do not depend on the base64 contents or the MIME types of the
  attachments: replacing them leaves the parts unchanged.
\<close>

theorem non_image_attachments_note_only:
  assumes "files m = Some fs" and "list_all (\<lambda>f. \<not> isImage f) fs"
  shows "messageParts m =
           (if fs = [] then (if content m = [] then [] else [Text (content m)])
            else [Text (content m @ [0x0A, 0x0A]
                          @ js ''(For context, the following files were also attached: ''
                          @ join (js '', '') (map name fs)
                          @ js ''. You cannot read their contents.)'')])
         \<and> (\<forall>t d. InlineData t d \<notin> set (messageParts m))
         \<and> messageParts (m\<lparr>files := Some (map (\<lambda>f. f\<lparr>base64Data := d f, type := t f\<rparr>) fs)\<rparr>)
             = messageParts m"
proof -
  have f: "filter (\<lambda>f. isImage f) fs = []" "filter (\<lambda>f. \<not> isImage f) fs = fs"
    using assms(2) by (simp_all add: list_all_iff)
  have e: "\<not> list_ex (\<lambda>f. isImage f) fs"
    using assms(2) by (simp add: list_all_iff list_ex_iff)
  have p: "messageParts m =
           (if fs = [] then (if content m = [] then [] else [Text (content m)])
            else [Text (content m @ [0x0A, 0x0A]
                          @ js ''(For context, the following files were also attached: ''
                          @ join (js '', '') (map name fs)
                          @ js ''. You cannot read their contents.)'')])"
    using assms(1) f e by (simp add: messageParts_def js_def)
  have n: "\<forall>t d. InlineData t d \<notin> set (messageParts m)"
    unfolding p by simp
  let ?fs' = "map (\<lambda>f. f\<lparr>base64Data := d f, type := t f\<rparr>) fs"
  have f': "filter (\<lambda>f. isImage f) ?fs' = []" "filter (\<lambda>f. \<not> isImage f) ?fs' = ?fs'"
    using assms(2) by (simp_all add: list_all_iff filter_map o_def)
  have e': "\<not> list_ex (\<lambda>f. isImage f) ?fs'"
    using assms(2) by (simp add: list_all_iff list_ex_iff)
  have nm: "map name ?fs' = map name fs" by simp
  have "messageParts (m\<lparr>files := Some ?fs'\<rparr>) = messageParts m"
    unfolding p using f' e' nm by (simp add: messageParts_def js_def o_def)
  with p n show ?thesis by blast
qed

theorem non_image_attachments_note_only_witness:
  "messageParts
     \<lparr>role = User, content = js ''see'',
      files = Some [\<lparr>name = js ''a.pdf'', type = js ''application/pdf'',
                     base64Data = js ''JVBERi0='', isImage = False\<rparr>,
                    \<lparr>name = js ''b.txt'', type = js ''text/plain'',
                     base64Data = js ''aGk='', isImage = False\<rparr>]\<rparr>
   = [Text (js ''see'' @ [0x0A, 0x0A]
        @ js ''(For context, the following files were also attached: ''
        @ js ''a.pdf, b.txt'' @ js ''. You cannot read their contents.)'')]"
  using non_image_attachments_note_only
    [of "\<lparr>role = User, content = js ''see'',
          files = Some [\<lparr>name = js ''a.pdf'', type = js ''application/pdf'',
                         base64Data = js ''JVBERi0='', isImage = False\<rparr>,
                        \<lparr>name = js ''b.txt'', type = js ''text/plain'',
                         base64Data = js ''aGk='', isImage = False\<rparr>]\<rparr>"
        "[\<lparr>name = js ''a.pdf'', type = js ''application/pdf'',
           base64Data = js ''JVBERi0='', isImage = False\<rparr>,
          \<lparr>name = js ''b.txt'', type = js ''text/plain'',
           base64Data = js ''aGk='', isImage = False\<rparr>]"]
  by (simp add: js_def)

section \<open>Properties of the credential store and the settings dialog\<close>

lemma trim_without_space: "\<not> list_ex isWhiteSpace s \<Longrightarrow> trim s = s"
proof -
  assume a: "\<not> list_ex isWhiteSpace s"
  then have "dropWhile isWhiteSpace s = s"
    by (simp add: dropWhile_eq_self_iff list_ex_iff)
  moreover from a have "dropWhile isWhiteSpace (rev s) = rev s"
    by (auto simp: dropWhile_eq_self_iff list_ex_iff hd_rev)
  ultimately show ?thesis by (simp add: trim_def)
qed

lemma isWhiteSpace_samples: "\<not> isWhiteSpace 0x58" "isWhiteSpace 0x20"
  by (simp_all add: isWhiteSpace_def)

lemma no_space_in_sample_key: "\<not> list_ex isWhiteSpace (replicate 39 0x58)"
  using isWhiteSpace_samples by (simp add: list_ex_iff)

lemma trim_leading_space: "trim (0x20 # replicate 39 0x58) = replicate 39 0x58"
proof -
  have "dropWhile isWhiteSpace (replicate 39 0x58) = replicate 39 0x58"
    using isWhiteSpace_samples by (simp add: dropWhile_eq_self_iff)
  then show ?thesis
    using isWhiteSpace_samples by (simp add: trim_def)
qed

lemma trim_trailing_space: "trim (replicate 39 0x58 @ [0x20]) = replicate 39 0x58"
proof -
  have "dropWhile isWhiteSpace (replicate 39 0x58) = replicate 39 0x58"
    using isWhiteSpace_samples by (simp add: dropWhile_eq_self_iff)
  then show ?thesis
    using isWhiteSpace_samples by (simp add: trim_def)
qed

text \<open>
  Claim C3, as the code has it. The save operation checks the input after
  trimming white space at both ends. If the trimmed input has a length other than
  39 or contains white space, local storage and the saved key are unchanged and
  the field error is set; otherwise the trimmed input is stored under the key
  \<open>gemini-api-key\<close> and the field error is cleared. An input of 39 code units
  without white space is stored as it is.
\<close>

theorem handleSaveApiKey_checks_trimmed_input:
  "(length (trim (apiKeyInput st)) \<noteq> 39 \<or> list_ex isWhiteSpace (trim (apiKeyInput st)) \<longrightarrow>
      localStorage (handleSaveApiKey st) = localStorage st
      \<and> savedApiKey (handleSaveApiKey st) = savedApiKey st
      \<and> apiKeyError (handleSaveApiKey st)
          = Some (js ''Invalid API Key format. Please enter a valid 39-character key.''))
   \<and> (length (trim (apiKeyInput st)) = 39 \<and> \<not> list_ex isWhiteSpace (trim (apiKeyInput st)) \<longrightarrow>
      localStorage (handleSaveApiKey st)
        = (localStorage st)(js ''gemini-api-key'' \<mapsto> trim (apiKeyInput st))
      \<and> savedApiKey (handleSaveApiKey st) = Some (trim (apiKeyInput st))
      \<and> apiKeyError (handleSaveApiKey st) = None)
   \<and> (length (apiKeyInput st) = 39 \<and> \<not> list_ex isWhiteSpace (apiKeyInput st) \<longrightarrow>
      localStorage (handleSaveApiKey st) (js ''gemini-api-key'') = Some (apiKeyInput st))"
  by (auto simp: handleSaveApiKey_def Let_def trim_without_space)

theorem handleSaveApiKey_checks_trimmed_input_witness:
  "apiKeyError (handleSaveApiKey (initialState\<lparr>apiKeyInput := replicate 38 0x58\<rparr>))
     = Some (js ''Invalid API Key format. Please enter a valid 39-character key.'')
   \<and> localStorage (handleSaveApiKey (initialState\<lparr>apiKeyInput := replicate 38 0x58\<rparr>))
     = localStorage initialState
   \<and> localStorage (handleSaveApiKey (initialState\<lparr>apiKeyInput := replicate 39 0x58 @ [0x20]\<rparr>))
       (js ''gemini-api-key'') = Some (replicate 39 0x58)
   \<and> localStorage (handleSaveApiKey (initialState\<lparr>apiKeyInput := replicate 39 0x58\<rparr>))
       (js ''gemini-api-key'') = Some (replicate 39 0x58)"
proof -
  have short: "trim (replicate 38 0x58) = replicate 38 0x58"
    using isWhiteSpace_samples by (simp add: trim_without_space list_ex_iff)
  have exact: "trim (replicate 39 0x58) = replicate 39 0x58"
    using no_space_in_sample_key by (rule trim_without_space)
  show ?thesis
    using handleSaveApiKey_checks_trimmed_input
            [of "initialState\<lparr>apiKeyInput := replicate 38 0x58\<rparr>"]
          handleSaveApiKey_checks_trimmed_input
            [of "initialState\<lparr>apiKeyInput := replicate 39 0x58 @ [0x20]\<rparr>"]
          handleSaveApiKey_checks_trimmed_input
            [of "initialState\<lparr>apiKeyInput := replicate 39 0x58\<rparr>"]
          short exact trim_trailing_space no_space_in_sample_key
    by simp
qed

text \<open>
  An input of 40 code units that starts with a space has a length other than 39
  and contains white space, and yet the save operation stores a key (the 39 code
  units after the space) and sets no field error.
\<close>

theorem handleSaveApiKey_accepts_padded_key:
  "length (0x20 # replicate 39 (0x58 :: code_unit)) \<noteq> 39
   \<and> list_ex isWhiteSpace (0x20 # replicate 39 0x58)
   \<and> localStorage initialState (js ''gemini-api-key'') = None
   \<and> localStorage (handleSaveApiKey (initialState\<lparr>apiKeyInput := 0x20 # replicate 39 0x58\<rparr>))
        (js ''gemini-api-key'') = Some (replicate 39 0x58)
   \<and> apiKeyError (handleSaveApiKey (initialState\<lparr>apiKeyInput := 0x20 # replicate 39 0x58\<rparr>))
        = None"
  using trim_leading_space no_space_in_sample_key isWhiteSpace_samples
  by (simp add: handleSaveApiKey_def initialState_def Let_def)

text \<open>
  Claim C4. For every key \<open>k\<close> of 39 code units without white space, saving \<open>k\<close>
  and then reading the credential returns \<open>k\<close>; removing the credential and then
  reading it returns the default of the environment, \<open>process.env.API_KEY || null\<close>:
  the build-time value when it is a non-empty string, and null otherwise.
\<close>

theorem credential_round_trip:
  "length k = 39 \<and> \<not> list_ex isWhiteSpace k \<Longrightarrow>
     getApiKey env (localStorage (handleSaveApiKey (st\<lparr>apiKeyInput := k\<rparr>))) = Some k
     \<and> getApiKey env
          (localStorage (handleRemoveApiKey (handleSaveApiKey (st\<lparr>apiKeyInput := k\<rparr>))))
         = orNull env
     \<and> getApiKey env (localStorage (handleRemoveApiKey st)) = orNull env
     \<and> orNull env = (case env of None \<Rightarrow> None | Some d \<Rightarrow> if d = [] then None else Some d)"
  by (auto simp: handleSaveApiKey_def handleRemoveApiKey_def getApiKey_def orNull_def Let_def
        trim_without_space split: option.splits)

theorem credential_round_trip_witness:
  "getApiKey (Some (js ''DEFAULT''))
     (localStorage (handleSaveApiKey (initialState\<lparr>apiKeyInput := replicate 39 0x58\<rparr>)))
     = Some (replicate 39 0x58)
   \<and> getApiKey (Some (js ''DEFAULT''))
       (localStorage (handleRemoveApiKey
          (handleSaveApiKey (initialState\<lparr>apiKeyInput := replicate 39 0x58\<rparr>))))
     = Some (js ''DEFAULT'')"
  using credential_round_trip [of "replicate 39 0x58" "Some (js ''DEFAULT'')" initialState]
        no_space_in_sample_key
  by (simp add: js_def)

text \<open>
  Claim C10. If local storage holds the empty string under the key, the read
  operation does not return it: it returns the build-time default, decided by
  truthiness. It returns null exactly when the default is absent too, that is,
  when \<open>process.env.API_KEY\<close> is undefined or the empty string.
\<close>

theorem getApiKey_empty_stored_falls_back:
  "storage (js ''gemini-api-key'') = Some [] \<Longrightarrow>
     getApiKey env storage \<noteq> Some []
     \<and> getApiKey env storage = orNull env
     \<and> (getApiKey env storage = None \<longleftrightarrow> env = None \<or> env = Some [])
     \<and> (d \<noteq> [] \<longrightarrow> getApiKey (Some d) storage = Some d)"
  by (auto simp: getApiKey_def orNull_def split: option.splits if_splits)

theorem getApiKey_empty_stored_falls_back_witness:
  "getApiKey (Some (js ''DEFAULT'')) [js ''gemini-api-key'' \<mapsto> []] = Some (js ''DEFAULT'')
   \<and> getApiKey None [js ''gemini-api-key'' \<mapsto> []] = None"
  using getApiKey_empty_stored_falls_back
          [of "[js ''gemini-api-key'' \<mapsto> []]" "Some (js ''DEFAULT'')" "js ''DEFAULT''"]
        getApiKey_empty_stored_falls_back
          [of "[js ''gemini-api-key'' \<mapsto> []]" None "js ''DEFAULT''"]
  by (simp add: js_def orNull_def)

section \<open>Properties of the upload handler\<close>

text \<open>
  Claim C7. If the number of pending attachments plus the size of the batch
  exceeds 3, the upload handler changes neither the pending attachments nor the
  files being read (no reader is started for a file of the batch), and it raises
  the alert \<open>You can upload a maximum of 3 files.\<close>; nothing else changes.
\<close>

theorem handleFileUpload_rejects_over_limit:
  "length (uploadedFiles st) + length batch > 3 \<Longrightarrow>
     uploadedFiles (handleFileUpload (Some batch) st) = uploadedFiles st
     \<and> reading (handleFileUpload (Some batch) st) = reading st
     \<and> alerts (handleFileUpload (Some batch) st)
         = alerts st @ [js ''You can upload a maximum of 3 files.'']
     \<and> handleFileUpload (Some batch) st
         = st\<lparr>alerts := alerts st @ [js ''You can upload a maximum of 3 files.'']\<rparr>"
  by (simp add: handleFileUpload_def)

theorem handleFileUpload_rejects_over_limit_witness:
  "uploadedFiles
     (handleFileUpload (Some [\<lparr>fname = js ''d.png'', ftype = js ''image/png''\<rparr>])
        (initialState\<lparr>uploadedFiles :=
           replicate 3 \<lparr>name = js ''a.png'', type = js ''image/png'',
                        base64Data = js ''iVBORw0KGgo='', isImage = True\<rparr>\<rparr>))
     = replicate 3 \<lparr>name = js ''a.png'', type = js ''image/png'',
                     base64Data = js ''iVBORw0KGgo='', isImage = True\<rparr>
   \<and> alerts
       (handleFileUpload (Some [\<lparr>fname = js ''d.png'', ftype = js ''image/png''\<rparr>])
          (initialState\<lparr>uploadedFiles :=
             replicate 3 \<lparr>name = js ''a.png'', type = js ''image/png'',
                          base64Data = js ''iVBORw0KGgo='', isImage = True\<rparr>\<rparr>))
     = [js ''You can upload a maximum of 3 files.'']"
  using handleFileUpload_rejects_over_limit
    [of "initialState\<lparr>uploadedFiles :=
           replicate 3 \<lparr>name = js ''a.png'', type = js ''image/png'',
                        base64Data = js ''iVBORw0KGgo='', isImage = True\<rparr>\<rparr>"
        "[\<lparr>fname = js ''d.png'', ftype = js ''image/png''\<rparr>]"]
  by (simp add: initialState_def)

section \<open>Properties of the streaming controller\<close>

lemma appendFragment_Nil: "appendFragment t [] = []"
  by (simp add: appendFragment_def)

lemma appendFragment_snoc:
  "appendFragment t (ms @ [m])
     = ms @ [if role m = Model then m\<lparr>content := content m @ t\<rparr> else m]"
  by (simp add: appendFragment_def)

lemma appendFragment_empty: "appendFragment [] msgs = msgs"
  by (cases msgs rule: rev_cases) (simp_all add: appendFragment_Nil appendFragment_snoc)

lemma appendFragment_append:
  "appendFragment (a @ b) msgs = appendFragment b (appendFragment a msgs)"
  by (cases msgs rule: rev_cases) (simp_all add: appendFragment_Nil appendFragment_snoc)

lemma streamLoop_stopped: "snd (streamLoop True msgs es) = msgs"
proof (induction es)
  case Nil
  show ?case by simp
next
  case (Cons e es)
  then show ?case by (cases e) simp_all
qed

lemma streamLoop_running:
  "snd (streamLoop False msgs es) = appendFragment (concat (fragmentsBeforeStop es)) msgs"
proof (induction es arbitrary: msgs)
  case Nil
  show ?case by (simp add: appendFragment_empty)
next
  case (Cons e es)
  show ?case
  proof (cases e)
    case (Chunk frag)
    then show ?thesis
      using Cons.IH by (cases frag) (simp_all add: appendFragment_append appendFragment_empty)
  next
    case StopPressed
    then show ?thesis by (simp add: streamLoop_stopped appendFragment_empty)
  next
    case (StreamFails x)
    then show ?thesis by (simp add: appendFragment_empty)
  qed
qed

text \<open>
  Claim C1. Processing a fragment changes the conversation only in the content of
  its last message, by appending the fragment to it (and only when that message
  is a model message; an empty conversation stays empty). A loop that starts
  with the flag clear leaves the conversation with exactly the fragments that
  arrived before the stop button was pressed appended, in order, to the last
  message; once the flag is set the loop leaves the conversation as it is, so
  what was appended before stays and nothing is appended after.
\<close>

theorem streaming_appends_only_to_last:
  "appendFragment t [] = []
   \<and> appendFragment t (ms @ [m])
       = ms @ [if role m = Model then m\<lparr>content := content m @ t\<rparr> else m]
   \<and> snd (streamLoop False msgs es) = appendFragment (concat (fragmentsBeforeStop es)) msgs
   \<and> snd (streamLoop True msgs es) = msgs"
  by (simp add: appendFragment_Nil appendFragment_snoc streamLoop_running streamLoop_stopped)

theorem streaming_appends_only_to_last_witness:
  "snd (streamLoop False
          [\<lparr>role = User, content = js ''hi'', files = Some []\<rparr>,
           \<lparr>role = Model, content = [], files = None\<rparr>]
          [Chunk (Some (js ''Hel'')), Chunk None, Chunk (Some (js ''lo'')), StopPressed,
           Chunk (Some (js ''!!''))])
     = [\<lparr>role = User, content = js ''hi'', files = Some []\<rparr>,
        \<lparr>role = Model, content = js ''Hello'', files = None\<rparr>]
   \<and> messages
       (handleSendMessage None
          (\<lambda>contents. Stream [Chunk (Some (js ''Hel'')), Chunk None, Chunk (Some (js ''lo'')),
                               StopPressed, Chunk (Some (js ''!!''))])
          None
          (initialState\<lparr>localStorage := [js ''gemini-api-key'' \<mapsto> replicate 39 0x58],
                         inputValue := js '' hi ''\<rparr>))
     = [\<lparr>role = User, content = js ''hi'', files = Some []\<rparr>,
        \<lparr>role = Model, content = js ''Hello'', files = None\<rparr>]"
proof -
  have sent:
    "messages
       (handleSendMessage None
          (\<lambda>contents. Stream [Chunk (Some (js ''Hel'')), Chunk None, Chunk (Some (js ''lo'')),
                               StopPressed, Chunk (Some (js ''!!''))])
          None
          (initialState\<lparr>localStorage := [js ''gemini-api-key'' \<mapsto> replicate 39 0x58],
                         inputValue := js '' hi ''\<rparr>))
     = [\<lparr>role = User, content = js ''hi'', files = Some []\<rparr>,
        \<lparr>role = Model, content = js ''Hello'', files = None\<rparr>]"
    by (simp add: handleSendMessage_def initialState_def getApiKey_def orNull_def trim_def
          isWhiteSpace_def js_def Let_def appendFragment_def)
  show ?thesis
    using streaming_appends_only_to_last
      [of "js ''Hello''" "[\<lparr>role = User, content = js ''hi'', files = Some []\<rparr>]"
          "\<lparr>role = Model, content = [], files = None\<rparr>"
          "[\<lparr>role = User, content = js ''hi'', files = Some []\<rparr>,
            \<lparr>role = Model, content = [], files = None\<rparr>]"
          "[Chunk (Some (js ''Hel'')), Chunk None, Chunk (Some (js ''lo'')), StopPressed,
            Chunk (Some (js ''!!''))]"]
      sent
    by (simp add: js_def)
qed

lemma reportError_snoc:
  "reportError e (ms @ [m]) =
     (if role m = Model \<and> content m = [] then ms @ [m\<lparr>content := e\<rparr>]
      else ms @ [m, \<lparr>role = Model, content = e, files = None\<rparr>])"
  by (auto simp: reportError_def Let_def)

lemma streamLoop_thrown: "fst (streamLoop b msgs es) = thrownBeforeBreak b es"
proof (induction es arbitrary: b msgs)
  case Nil
  show ?case by simp
next
  case (Cons e es)
  show ?case
  proof (cases e)
    case (Chunk frag)
    then show ?thesis using Cons.IH by (cases frag) simp_all
  next
    case StopPressed
    then show ?thesis using Cons.IH by simp
  next
    case (StreamFails x)
    then show ?thesis by simp
  qed
qed

lemma reportError_Nil: "reportError e [] = [\<lparr>role = Model, content = e, files = None\<rparr>]"
  by (simp add: reportError_def)

lemma handleSendMessage_messages:
  assumes "getApiKey env (localStorage st) = Some apiKey"
    and "\<not> isLoading st"
    and "currentInput = trim (case orNull prompt of Some p \<Rightarrow> p | None \<Rightarrow> inputValue st)"
    and "currentInput \<noteq> [] \<or> uploadedFiles st \<noteq> []"
    and "updatedMessages = messages st
           @ [\<lparr>role = User, content = currentInput, files = Some (uploadedFiles st)\<rparr>]"
  shows "messages (handleSendMessage env api prompt st) =
          (case api (buildContents updatedMessages) of
             CallFails error \<Rightarrow> reportError (errorMessageFor error) updatedMessages
           | Stream events \<Rightarrow>
               (case streamLoop False
                       (updatedMessages @ [\<lparr>role = Model, content = [], files = None\<rparr>])
                       events of
                  (None, msgs) \<Rightarrow> msgs
                | (Some error, msgs) \<Rightarrow> reportError (errorMessageFor error) msgs))"
  using assms by (auto simp: handleSendMessage_def Let_def)

text \<open>
  Claim C8. Every generation that ends in an error of the API updates the
  conversation with an error text. If the call itself fails, no placeholder
  exists yet and a new model message with the error text follows the user's
  message. If the stream fails, the conversation ends with the placeholder: when
  it is still empty its content becomes the error text, and when it holds partial
  content it stays as it is and a new model message with the error text is
  appended. In general the updater replaces the content of a last message that
  is an empty model message and appends a new model message in every other
  case. The error text is the invalid-key text when the thrown value is an error
  whose message contains \<open>API key not valid\<close>, and the generic text otherwise;
  the two texts differ.
\<close>

theorem api_error_reported_in_conversation:
  assumes "getApiKey env (localStorage st) = Some apiKey"
    and "\<not> isLoading st"
    and "currentInput = trim (case orNull prompt of Some p \<Rightarrow> p | None \<Rightarrow> inputValue st)"
    and "currentInput \<noteq> [] \<or> uploadedFiles st \<noteq> []"
    and "updatedMessages = messages st
           @ [\<lparr>role = User, content = currentInput, files = Some (uploadedFiles st)\<rparr>]"
  shows
    "(api (buildContents updatedMessages) = CallFails err \<longrightarrow>
        messages (handleSendMessage env api prompt st)
          = updatedMessages @ [\<lparr>role = Model, content = errorMessageFor err, files = None\<rparr>])
     \<and> (api (buildContents updatedMessages) = Stream es \<and> thrownBeforeBreak False es = Some err \<longrightarrow>
        messages (handleSendMessage env api prompt st)
          = (if concat (fragmentsBeforeStop es) = []
             then updatedMessages
                    @ [\<lparr>role = Model, content = errorMessageFor err, files = None\<rparr>]
             else updatedMessages
                    @ [\<lparr>role = Model, content = concat (fragmentsBeforeStop es), files = None\<rparr>,
                       \<lparr>role = Model, content = errorMessageFor err, files = None\<rparr>]))
     \<and> reportError e [] = [\<lparr>role = Model, content = e, files = None\<rparr>]
     \<and> reportError e (ms @ [m])
         = (if role m = Model \<and> content m = [] then ms @ [m\<lparr>content := e\<rparr>]
            else ms @ [m, \<lparr>role = Model, content = e, files = None\<rparr>])
     \<and> errorMessageFor (Error message) =
          (if includes_str message (js ''API key not valid'')
           then js ''Your API key is invalid. Please check it in the Settings menu.''
           else js ''Sorry, I encountered an error. Please try again.'')
     \<and> errorMessageFor NotAnError = js ''Sorry, I encountered an error. Please try again.''
     \<and> js ''Your API key is invalid. Please check it in the Settings menu.''
         \<noteq> js ''Sorry, I encountered an error. Please try again.''"
proof -
  note sent = handleSendMessage_messages [OF assms, of api]
  have user: "reportError x updatedMessages
                = updatedMessages @ [\<lparr>role = Model, content = x, files = None\<rparr>]" for x
    unfolding assms(5) by (simp add: reportError_snoc del: append_assoc add: append_assoc [symmetric])
  have call: "api (buildContents updatedMessages) = CallFails err \<longrightarrow>
        messages (handleSendMessage env api prompt st)
          = updatedMessages @ [\<lparr>role = Model, content = errorMessageFor err, files = None\<rparr>]"
    using sent user by simp
  have stream: "api (buildContents updatedMessages) = Stream es \<and> thrownBeforeBreak False es = Some err \<longrightarrow>
        messages (handleSendMessage env api prompt st)
          = (if concat (fragmentsBeforeStop es) = []
             then updatedMessages
                    @ [\<lparr>role = Model, content = errorMessageFor err, files = None\<rparr>]
             else updatedMessages
                    @ [\<lparr>role = Model, content = concat (fragmentsBeforeStop es), files = None\<rparr>,
                       \<lparr>role = Model, content = errorMessageFor err, files = None\<rparr>])"
  proof (intro impI, elim conjE)
    assume a: "api (buildContents updatedMessages) = Stream es"
      and t: "thrownBeforeBreak False es = Some err"
    let ?start = "updatedMessages @ [\<lparr>role = Model, content = [], files = None\<rparr>]"
    have f: "fst (streamLoop False ?start es) = Some err"
      using t by (simp add: streamLoop_thrown)
    have s: "snd (streamLoop False ?start es)
               = updatedMessages
                   @ [\<lparr>role = Model, content = concat (fragmentsBeforeStop es), files = None\<rparr>]"
      by (simp add: streamLoop_running appendFragment_snoc)
    from f s have l: "streamLoop False ?start es
               = (Some err, updatedMessages
                   @ [\<lparr>role = Model, content = concat (fragmentsBeforeStop es), files = None\<rparr>])"
      by (metis prod.collapse)
    show "messages (handleSendMessage env api prompt st)
          = (if concat (fragmentsBeforeStop es) = []
             then updatedMessages
                    @ [\<lparr>role = Model, content = errorMessageFor err, files = None\<rparr>]
             else updatedMessages
                    @ [\<lparr>role = Model, content = concat (fragmentsBeforeStop es), files = None\<rparr>,
                       \<lparr>role = Model, content = errorMessageFor err, files = None\<rparr>])"
      using sent a l by (simp add: reportError_snoc)
  qed
  have texts: "errorMessageFor (Error message) =
          (if includes_str message (js ''API key not valid'')
           then js ''Your API key is invalid. Please check it in the Settings menu.''
           else js ''Sorry, I encountered an error. Please try again.'')
     \<and> errorMessageFor NotAnError = js ''Sorry, I encountered an error. Please try again.''
     \<and> js ''Your API key is invalid. Please check it in the Settings menu.''
         \<noteq> js ''Sorry, I encountered an error. Please try again.''"
    by (simp add: errorMessageFor_def) (simp add: js_def)
  from call stream texts reportError_Nil [of e] reportError_snoc [of e ms m]
  show ?thesis by simp
qed

theorem api_error_reported_in_conversation_witness:
  "messages
     (handleSendMessage None (\<lambda>contents. CallFails (Error (js ''400: API key not valid.'')))
        None
        (initialState\<lparr>localStorage := [js ''gemini-api-key'' \<mapsto> replicate 39 0x58],
                       inputValue := js ''hi''\<rparr>))
     = [\<lparr>role = User, content = js ''hi'', files = Some []\<rparr>,
        \<lparr>role = Model,
         content = js ''Your API key is invalid. Please check it in the Settings menu.'',
         files = None\<rparr>]
   \<and> messages
       (handleSendMessage None (\<lambda>contents. Stream [StreamFails NotAnError]) None
          (initialState\<lparr>localStorage := [js ''gemini-api-key'' \<mapsto> replicate 39 0x58],
                         inputValue := js ''hi''\<rparr>))
     = [\<lparr>role = User, content = js ''hi'', files = Some []\<rparr>,
        \<lparr>role = Model, content = js ''Sorry, I encountered an error. Please try again.'',
         files = None\<rparr>]
   \<and> messages
       (handleSendMessage None
          (\<lambda>contents. Stream [Chunk (Some (js ''Hel'')), StreamFails NotAnError]) None
          (initialState\<lparr>localStorage := [js ''gemini-api-key'' \<mapsto> replicate 39 0x58],
                         inputValue := js ''hi''\<rparr>))
     = [\<lparr>role = User, content = js ''hi'', files = Some []\<rparr>,
        \<lparr>role = Model, content = js ''Hel'', files = None\<rparr>,
        \<lparr>role = Model, content = js ''Sorry, I encountered an error. Please try again.'',
         files = None\<rparr>]"
proof -
  let ?st = "initialState\<lparr>localStorage := [js ''gemini-api-key'' \<mapsto> replicate 39 0x58],
                           inputValue := js ''hi''\<rparr>"
  have key: "getApiKey None (localStorage ?st) = Some (replicate 39 0x58)"
    by (simp add: getApiKey_def)
  have idle: "\<not> isLoading ?st"
    by (simp add: initialState_def)
  have input: "js ''hi'' = trim (case orNull None of Some p \<Rightarrow> p | None \<Rightarrow> inputValue ?st)"
    by (simp add: orNull_def trim_def isWhiteSpace_def js_def)
  have nonempty: "js ''hi'' \<noteq> [] \<or> uploadedFiles ?st \<noteq> []"
    by (simp add: js_def)
  have updated: "[\<lparr>role = User, content = js ''hi'', files = Some []\<rparr>]
      = messages ?st @ [\<lparr>role = User, content = js ''hi'', files = Some (uploadedFiles ?st)\<rparr>]"
    by (simp add: initialState_def)
  note reported = api_error_reported_in_conversation [OF key idle input nonempty updated]
  have invalid: "errorMessageFor (Error (js ''400: API key not valid.''))
      = js ''Your API key is invalid. Please check it in the Settings menu.''"
    by (simp add: errorMessageFor_def startsWith_def js_def)
  have generic: "errorMessageFor NotAnError
      = js ''Sorry, I encountered an error. Please try again.''"
    by (simp add: errorMessageFor_def)
  have call: "messages
     (handleSendMessage None (\<lambda>contents. CallFails (Error (js ''400: API key not valid.'')))
        None ?st)
     = [\<lparr>role = User, content = js ''hi'', files = Some []\<rparr>,
        \<lparr>role = Model,
         content = js ''Your API key is invalid. Please check it in the Settings menu.'',
         files = None\<rparr>]"
    using reported [where api = "\<lambda>contents. CallFails (Error (js ''400: API key not valid.''))"
        and err = "Error (js ''400: API key not valid.'')"]
    by (simp add: invalid)
  have empty: "messages
       (handleSendMessage None (\<lambda>contents. Stream [StreamFails NotAnError]) None ?st)
     = [\<lparr>role = User, content = js ''hi'', files = Some []\<rparr>,
        \<lparr>role = Model, content = js ''Sorry, I encountered an error. Please try again.'',
         files = None\<rparr>]"
    using reported [where api = "\<lambda>contents. Stream [StreamFails NotAnError]"
        and err = NotAnError and es = "[StreamFails NotAnError]"]
    by (simp add: generic)
  have partial: "messages
       (handleSendMessage None
          (\<lambda>contents. Stream [Chunk (Some (js ''Hel'')), StreamFails NotAnError]) None ?st)
     = [\<lparr>role = User, content = js ''hi'', files = Some []\<rparr>,
        \<lparr>role = Model, content = js ''Hel'', files = None\<rparr>,
        \<lparr>role = Model, content = js ''Sorry, I encountered an error. Please try again.'',
         files = None\<rparr>]"
    using reported
      [where api = "\<lambda>contents. Stream [Chunk (Some (js ''Hel'')), StreamFails NotAnError]"
        and err = NotAnError and es = "[Chunk (Some (js ''Hel'')), StreamFails NotAnError]"]
    by (simp add: generic) (simp add: js_def)
  from call empty partial show ?thesis by simp
qed

section \<open>Properties of the markdown-subset renderer\<close>

lemma lazyUntil_splits: "lazyUntil ok d s = Some (m, rest) \<Longrightarrow> s = m @ rest"
proof (induction s arbitrary: m)
  case Nil
  then show ?case by (simp split: if_splits)
next
  case (Cons c cs)
  show ?case
  proof (cases "startsWith (c # cs) d")
    case True
    with Cons.prems have "m = d" "rest = drop (length d) (c # cs)" by auto
    moreover from True have "take (length d) (c # cs) = d" by (simp add: startsWith_def)
    ultimately show ?thesis by (metis append_take_drop_id)
  next
    case False
    with Cons.prems obtain m' where "lazyUntil ok d cs = Some (m', rest)" "m = c # m'"
      by (auto split: if_splits option.splits)
    with Cons.IH show ?thesis by simp
  qed
qed

lemma matchDelimited_splits:
  "matchDelimited d ok s = Some (m, rest) \<Longrightarrow> s = m @ rest \<and> m \<noteq> []"
proof -
  assume a: "matchDelimited d ok s = Some (m, rest)"
  then have d: "d \<noteq> []" "startsWith s d"
    by (auto simp: matchDelimited_def split: if_splits)
  with a obtain m' where l: "lazyUntil ok d (drop (length d) s) = Some (m', rest)"
    and m: "m = d @ m'"
    by (auto simp: matchDelimited_def split: option.splits)
  from l have "drop (length d) s = m' @ rest" by (rule lazyUntil_splits)
  moreover from d have "take (length d) s = d" by (simp add: startsWith_def)
  ultimately have "s = d @ m' @ rest" by (metis append_take_drop_id)
  with m d show ?thesis by simp
qed

lemma matchPattern_splits:
  "matchPattern s = Some (m, rest) \<Longrightarrow> s = m @ rest \<and> m \<noteq> []"
  by (auto simp: matchPattern_def split: option.splits dest: matchDelimited_splits)

lemma splitLoop_concat: "concat (splitLoop pending s) = pending @ s"
proof (induction pending s rule: splitLoop.induct)
  case (1 pending)
  show ?case by simp
next
  case (2 pending c cs)
  show ?case
  proof (cases "matchPattern (c # cs)")
    case None
    with 2 show ?thesis by simp
  next
    case (Some r)
    obtain m rest where r: "r = (m, rest)" by (cases r)
    with Some have split: "c # cs = m @ rest" by (simp add: matchPattern_splits)
    from Some r have step: "splitLoop pending (c # cs) = pending # m # splitLoop [] rest"
      by simp
    from Some r have "concat (splitLoop [] rest) = [] @ rest"
      by (intro "2.IH"(2) [of r m rest]) simp_all
    with step split show ?thesis by simp
  qed
qed

lemma startsWith_single: "startsWith p [d] \<longleftrightarrow> p \<noteq> [] \<and> hd p = d"
  by (cases p) (simp_all add: startsWith_def)

lemma endsWith_single: "endsWith p [d] \<longleftrightarrow> p \<noteq> [] \<and> last p = d"
proof (cases p rule: rev_cases)
  case Nil
  then show ?thesis by (simp add: endsWith_def)
next
  case (snoc ys y)
  then show ?thesis by (simp add: endsWith_def)
qed

lemma startsWith_hd: "startsWith p (d # ds) \<Longrightarrow> p \<noteq> [] \<and> hd p = d"
  by (cases p) (simp_all add: startsWith_def)

lemma endsWith_last: "endsWith p (ds @ [d]) \<Longrightarrow> p \<noteq> [] \<and> last p = d"
proof -
  assume a: "endsWith p (ds @ [d])"
  then have "drop (length p - length (ds @ [d])) p = ds @ [d]" by (simp add: endsWith_def)
  then have "p = take (length p - length (ds @ [d])) p @ ds @ [d]"
    by (metis append_take_drop_id)
  then obtain q where "p = q @ [d]" by (metis append_assoc)
  then show ?thesis by simp
qed

lemma renderPart_Literal_iff:
  "renderPart p = Literal p \<longleftrightarrow>
     \<not> (startsWith p (js ''*'') \<and> endsWith p (js ''*''))
     \<and> \<not> (startsWith p (js ''`'') \<and> endsWith p (js ''`''))"
proof -
  have s3: "startsWith p (js ''```'') \<Longrightarrow> startsWith p (js ''`'')"
    using startsWith_hd [of p "0x60" "[0x60, 0x60]"] by (simp add: js_def startsWith_single)
  have e3: "endsWith p (js ''```'') \<Longrightarrow> endsWith p (js ''`'')"
    using endsWith_last [of p "[0x60, 0x60]" "0x60"] by (simp add: js_def endsWith_single)
  have s2: "startsWith p (js ''**'') \<Longrightarrow> startsWith p (js ''*'')"
    using startsWith_hd [of p "0x2A" "[0x2A]"] by (simp add: js_def startsWith_single)
  have e2: "endsWith p (js ''**'') \<Longrightarrow> endsWith p (js ''*'')"
    using endsWith_last [of p "[0x2A]" "0x2A"] by (simp add: js_def endsWith_single)
  show ?thesis
    using s3 e3 s2 e2 by (auto simp: renderPart_def)
qed

lemma startsWith_iff: "startsWith s p \<longleftrightarrow> (\<exists>ys. s = p @ ys)"
  unfolding startsWith_def by (metis append_eq_conv_conj append_take_drop_id)

lemma startsWith_length: "startsWith s p \<Longrightarrow> length p \<le> length s"
  by (auto simp: startsWith_iff)

lemma includes_str_length: "includes_str s p \<Longrightarrow> length p \<le> length s"
  by (induction s) (auto dest: startsWith_length)

lemma startsWith_longer:
  "length p \<le> length xs \<Longrightarrow> startsWith (xs @ ys) p \<longleftrightarrow> startsWith xs p"
  by (simp add: startsWith_def)

lemma isToken_iff:
  "isToken d ok m \<longleftrightarrow>
     (\<exists>body. m = d @ body @ d \<and> list_all ok body \<and> \<not> includes_str (butlast (body @ d)) d)"
proof
  assume t: "isToken d ok m"
  let ?body = "take (length m - 2 * length d) (drop (length d) m)"
  from t have len: "2 * length d \<le> length m" and sw: "take (length d) m = d"
    and ew: "drop (length m - length d) m = d"
    and ok: "list_all ok ?body" and ni: "\<not> includes_str (butlast (drop (length d) m)) d"
    by (simp_all add: isToken_def startsWith_def endsWith_def)
  have "drop (length m - 2 * length d) (drop (length d) m) = drop (length m - length d) m"
    using len by (simp add: add.commute)
  with ew have "drop (length d) m = ?body @ d"
    by (metis append_take_drop_id)
  with sw have m: "m = d @ ?body @ d" by (metis append_take_drop_id)
  then have "drop (length d) m = ?body @ d" by (metis append_eq_conv_conj)
  with ni ok m show "\<exists>body. m = d @ body @ d \<and> list_all ok body
                      \<and> \<not> includes_str (butlast (body @ d)) d"
    by metis
next
  assume "\<exists>body. m = d @ body @ d \<and> list_all ok body \<and> \<not> includes_str (butlast (body @ d)) d"
  then obtain body where m: "m = d @ body @ d" and ok: "list_all ok body"
    and ni: "\<not> includes_str (butlast (body @ d)) d" by blast
  show "isToken d ok m"
    unfolding isToken_def using ok ni by (simp add: m startsWith_def endsWith_def)
qed

lemma lazyUntil_iff_aux:
  assumes d: "d \<noteq> []"
  shows "lazyUntil ok d s = Some (m, rest) \<longleftrightarrow>
           (\<exists>body. m = body @ d \<and> s = m @ rest \<and> list_all ok body
                    \<and> \<not> includes_str (body @ butlast d) d)"
proof (induction s arbitrary: m)
  case Nil
  with d show ?case by simp
next
  case (Cons c cs)
  have short: "\<not> includes_str (butlast d) d"
    using d includes_str_length [of "butlast d" d] by (cases d rule: rev_cases) auto
  have head: "startsWith (b # bs @ butlast d) d \<longleftrightarrow> startsWith (b # bs @ d @ r) d" for b bs r
  proof -
    have "d = butlast d @ [last d]" using d by simp
    then have "b # bs @ d @ r = (b # bs @ butlast d) @ (last d # r)"
      by (metis append.assoc append_Cons append_Nil)
    moreover have "length d \<le> length (b # bs @ butlast d)" by simp
    ultimately show ?thesis by (metis startsWith_longer)
  qed
  show ?case
  proof (cases "startsWith (c # cs) d")
    case True
    then have td: "c # cs = d @ drop (length d) (c # cs)"
      by (metis append_take_drop_id startsWith_def)
    show ?thesis
    proof
      assume "lazyUntil ok d (c # cs) = Some (m, rest)"
      with True have "m = d" "rest = drop (length d) (c # cs)" by auto
      with td short show "\<exists>body. m = body @ d \<and> c # cs = m @ rest \<and> list_all ok body
                      \<and> \<not> includes_str (body @ butlast d) d"
        by (intro exI [of _ "[]"]) simp
    next
      assume "\<exists>body. m = body @ d \<and> c # cs = m @ rest \<and> list_all ok body
                      \<and> \<not> includes_str (body @ butlast d) d"
      then obtain body where m: "m = body @ d" and s: "c # cs = m @ rest"
        and ni: "\<not> includes_str (body @ butlast d) d" by blast
      have "body = []"
      proof (cases body)
        case Nil
        then show ?thesis .
      next
        case (Cons b bs)
        with m s True have "startsWith (b # bs @ d @ rest) d" by simp
        then have "startsWith (b # bs @ butlast d) d" using head by blast
        with ni Cons show ?thesis by simp
      qed
      with m s have "m = d" "rest = drop (length d) (c # cs)" by simp_all
      with True show "lazyUntil ok d (c # cs) = Some (m, rest)" by simp
    qed
  next
    case False
    show ?thesis
    proof
      assume l: "lazyUntil ok d (c # cs) = Some (m, rest)"
      with False obtain m' where okc: "ok c" and r: "lazyUntil ok d cs = Some (m', rest)"
        and m: "m = c # m'"
        by (auto split: if_splits option.splits)
      from r Cons.IH obtain body' where b: "m' = body' @ d" "cs = m' @ rest"
        "list_all ok body'" "\<not> includes_str (body' @ butlast d) d" by blast
      from False b have "\<not> startsWith (c # body' @ butlast d) d" using head by auto
      with b okc m show "\<exists>body. m = body @ d \<and> c # cs = m @ rest \<and> list_all ok body
                      \<and> \<not> includes_str (body @ butlast d) d"
        by (intro exI [of _ "c # body'"]) simp
    next
      assume "\<exists>body. m = body @ d \<and> c # cs = m @ rest \<and> list_all ok body
                      \<and> \<not> includes_str (body @ butlast d) d"
      then obtain body where m: "m = body @ d" and s: "c # cs = m @ rest"
        and ok: "list_all ok body"
        and ni: "\<not> includes_str (body @ butlast d) d" by blast
      from False m s have "body \<noteq> []" by (auto simp: startsWith_iff)
      then obtain bs where body: "body = c # bs" using m s by (cases body) auto
      with ni have ni': "\<not> includes_str (bs @ butlast d) d" by simp
      from body m s ok ni' have "lazyUntil ok d cs = Some (bs @ d, rest)"
        using Cons.IH [of "bs @ d"] by auto
      with False body ok m show "lazyUntil ok d (c # cs) = Some (m, rest)" by simp
    qed
  qed
qed

lemma lazyUntil_iff:
  assumes d: "d \<noteq> []"
  shows "lazyUntil ok d s = Some (m, rest) \<longleftrightarrow>
           (\<exists>body. m = body @ d \<and> s = m @ rest \<and> list_all ok body
                    \<and> \<not> includes_str (butlast (body @ d)) d)"
  using lazyUntil_iff_aux [OF d] d by (simp add: butlast_append)

lemma matchDelimited_iff:
  assumes d: "d \<noteq> []"
  shows "matchDelimited d ok s = Some (m, rest) \<longleftrightarrow> s = m @ rest \<and> isToken d ok m"
proof
  assume a: "matchDelimited d ok s = Some (m, rest)"
  then have sw: "startsWith s d" by (auto simp: matchDelimited_def split: if_splits)
  with a d obtain m' where l: "lazyUntil ok d (drop (length d) s) = Some (m', rest)"
    and m: "m = d @ m'"
    by (auto simp: matchDelimited_def split: option.splits)
  from l obtain body where b: "m' = body @ d" "drop (length d) s = m' @ rest"
    "list_all ok body" "\<not> includes_str (butlast (body @ d)) d"
    using lazyUntil_iff [OF d] by blast
  from sw have "s = d @ drop (length d) s" by (metis append_take_drop_id startsWith_def)
  with b m have "s = m @ rest" by simp
  moreover from b m have "isToken d ok m" unfolding isToken_iff by blast
  ultimately show "s = m @ rest \<and> isToken d ok m" by simp
next
  assume "s = m @ rest \<and> isToken d ok m"
  then obtain body where s: "s = m @ rest" and m: "m = d @ body @ d"
    and b: "list_all ok body" "\<not> includes_str (butlast (body @ d)) d"
    unfolding isToken_iff by blast
  from s m have sw: "startsWith s d" and dr: "drop (length d) s = (body @ d) @ rest"
    by (simp_all add: startsWith_def)
  from b dr have "lazyUntil ok d (drop (length d) s) = Some (body @ d, rest)"
    using lazyUntil_iff [OF d, of ok "drop (length d) s" "body @ d" rest] by blast
  with sw d m show "matchDelimited d ok s = Some (m, rest)"
    by (simp add: matchDelimited_def)
qed

lemma tokenPrefix_iff:
  "tokenPrefix d ok s \<longleftrightarrow> (\<exists>m rest. s = m @ rest \<and> isToken d ok m)"
proof
  assume "tokenPrefix d ok s"
  then obtain n where "isToken d ok (take n s)"
    unfolding tokenPrefix_def list_ex_iff by blast
  then show "\<exists>m rest. s = m @ rest \<and> isToken d ok m"
    by (metis append_take_drop_id)
next
  assume "\<exists>m rest. s = m @ rest \<and> isToken d ok m"
  then obtain m rest where s: "s = m @ rest" and t: "isToken d ok m" by blast
  then have "isToken d ok (take (length m) s)" "length m < Suc (length s)" by simp_all
  then show "tokenPrefix d ok s"
    unfolding tokenPrefix_def list_ex_iff by (metis atLeast0LessThan lessThan_iff set_upt)
qed

lemma matchDelimited_None_iff:
  "d \<noteq> [] \<Longrightarrow> tokenPrefix d ok s \<longleftrightarrow> matchDelimited d ok s \<noteq> None"
  unfolding tokenPrefix_iff using matchDelimited_iff [of d ok s]
  by (metis not_Some_eq surj_pair)

lemma delimiters_nonempty:
  "js ''```'' \<noteq> []" "js ''**'' \<noteq> []" "js ''*'' \<noteq> []" "js ''`'' \<noteq> []"
  by (simp_all add: js_def)

lemma matchDelimited_Some_iff:
  assumes "d \<noteq> []" and "matchDelimited d ok s = Some r"
  shows "r = (m, rest) \<longleftrightarrow> s = m @ rest \<and> isToken d ok m"
  using matchDelimited_iff [OF assms(1), of ok s m rest] assms(2) by auto

lemma matchPattern_iff:
  "matchPattern s = Some (m, rest) \<longleftrightarrow>
     s = m @ rest
     \<and> (isToken (js ''```'') (\<lambda>c. True) m
        \<or> \<not> tokenPrefix (js ''```'') (\<lambda>c. True) s
          \<and> (isToken (js ''**'') (\<lambda>c. \<not> isLineTerminator c) m
             \<or> \<not> tokenPrefix (js ''**'') (\<lambda>c. \<not> isLineTerminator c) s
               \<and> (isToken (js ''*'') (\<lambda>c. \<not> isLineTerminator c) m
                  \<or> \<not> tokenPrefix (js ''*'') (\<lambda>c. \<not> isLineTerminator c) s
                    \<and> isToken (js ''`'') (\<lambda>c. \<not> isLineTerminator c) m)))"
proof -
  note ne = delimiters_nonempty
  have tp: "tokenPrefix d ok s" if "s = m @ rest" "isToken d ok m" for d ok
    using that tokenPrefix_iff by blast
  show ?thesis
  proof (cases "matchDelimited (js ''```'') (\<lambda>c. True) s")
    case (Some r)
    then have t: "tokenPrefix (js ''```'') (\<lambda>c. True) s"
      by (simp add: matchDelimited_None_iff [OF ne(1)])
    have "matchPattern s = Some r" using Some by (simp add: matchPattern_def)
    with t matchDelimited_Some_iff [OF ne(1) Some, of m rest] show ?thesis by auto
  next
    case n1: None
    then have t1: "\<not> tokenPrefix (js ''```'') (\<lambda>c. True) s"
      by (simp add: matchDelimited_None_iff [OF ne(1)])
    then have f1: "\<not> (s = m @ rest \<and> isToken (js ''```'') (\<lambda>c. True) m)" using tp by blast
    show ?thesis
    proof (cases "matchDelimited (js ''**'') (\<lambda>c. \<not> isLineTerminator c) s")
      case (Some r)
      then have t: "tokenPrefix (js ''**'') (\<lambda>c. \<not> isLineTerminator c) s"
        by (simp add: matchDelimited_None_iff [OF ne(2)])
      have "matchPattern s = Some r" using n1 Some by (simp add: matchPattern_def)
      with t t1 f1 matchDelimited_Some_iff [OF ne(2) Some, of m rest] show ?thesis by auto
    next
      case n2: None
      then have t2: "\<not> tokenPrefix (js ''**'') (\<lambda>c. \<not> isLineTerminator c) s"
        by (simp add: matchDelimited_None_iff [OF ne(2)])
      then have f2: "\<not> (s = m @ rest \<and> isToken (js ''**'') (\<lambda>c. \<not> isLineTerminator c) m)"
        using tp by blast
      show ?thesis
      proof (cases "matchDelimited (js ''*'') (\<lambda>c. \<not> isLineTerminator c) s")
        case (Some r)
        then have t: "tokenPrefix (js ''*'') (\<lambda>c. \<not> isLineTerminator c) s"
          by (simp add: matchDelimited_None_iff [OF ne(3)])
        have "matchPattern s = Some r" using n1 n2 Some by (simp add: matchPattern_def)
        with t t1 t2 f1 f2 matchDelimited_Some_iff [OF ne(3) Some, of m rest]
        show ?thesis by auto
      next
        case n3: None
        then have t3: "\<not> tokenPrefix (js ''*'') (\<lambda>c. \<not> isLineTerminator c) s"
          by (simp add: matchDelimited_None_iff [OF ne(3)])
        then have f3: "\<not> (s = m @ rest \<and> isToken (js ''*'') (\<lambda>c. \<not> isLineTerminator c) m)"
          using tp by blast
        have "matchPattern s = matchDelimited (js ''`'') (\<lambda>c. \<not> isLineTerminator c) s"
          using n1 n2 n3 by (simp add: matchPattern_def)
        with t1 t2 t3 f1 f2 f3
          matchDelimited_iff [OF ne(4), of "\<lambda>c. \<not> isLineTerminator c" s m rest]
        show ?thesis by auto
      qed
    qed
  qed
qed

lemma splitLoop_pending:
  "splitLoop pending s = (pending @ hd (splitLoop [] s)) # tl (splitLoop [] s)"
proof (induction s arbitrary: pending)
  case Nil
  show ?case by simp
next
  case (Cons c cs)
  show ?case
  proof (cases "matchPattern (c # cs)")
    case None
    then have "splitLoop pending (c # cs) = splitLoop (pending @ [c]) cs"
      "splitLoop [] (c # cs) = splitLoop [c] cs" by simp_all
    then show ?thesis
      using Cons.IH [of "pending @ [c]"] Cons.IH [of "[c]"] by simp
  next
    case (Some r)
    then show ?thesis by (cases r) simp
  qed
qed

lemma splitPattern_equations:
  "splitPattern [] = [[]]"
  "matchPattern (c # cs) = Some (m, rest) \<Longrightarrow> splitPattern (c # cs) = [] # m # splitPattern rest"
  "matchPattern (c # cs) = None \<Longrightarrow>
     splitPattern (c # cs) = (c # hd (splitPattern cs)) # tl (splitPattern cs)"
  using splitLoop_pending [of "[c]" cs] by (simp_all add: splitPattern_def)

lemma substring_between:
  "n \<le> length p \<Longrightarrow> substring p (int n) (int (length p) - int n) = between n p"
proof (cases "2 * n \<le> length p")
  case True
  assume "n \<le> length p"
  with True have "min (max (int n) 0) (int (length p)) = int n"
    "min (max (int (length p) - int n) 0) (int (length p)) = int (length p) - int n"
    "min (int n) (int (length p) - int n) = int n"
    "max (int n) (int (length p) - int n) = int (length p) - int n"
    by linarith+
  moreover have "nat (int (length p) - int n - int n) = length p - 2 * n" by linarith
  ultimately show ?thesis using True by (simp add: substring_def between_def Let_def)
next
  case False
  assume "n \<le> length p"
  with False have "min (max (int n) 0) (int (length p)) = int n"
    "min (max (int (length p) - int n) 0) (int (length p)) = int (length p) - int n"
    "min (int n) (int (length p) - int n) = int (length p) - int n"
    "max (int n) (int (length p) - int n) = int n"
    by linarith+
  moreover have "nat (int n - (int (length p) - int n)) = 2 * n - length p" by linarith
  moreover have "nat (int (length p) - int n) = length p - n" by linarith
  ultimately show ?thesis using False by (simp add: substring_def between_def Let_def)
qed

lemma renderPart_between:
  "renderPart p =
     (if startsWith p (js ''```'') \<and> endsWith p (js ''```'') then Pre (trim (between 3 p))
      else if startsWith p (js ''**'') \<and> endsWith p (js ''**'') then Strong (between 2 p)
      else if startsWith p (js ''*'') \<and> endsWith p (js ''*'') then Em (between 1 p)
      else if startsWith p (js ''`'') \<and> endsWith p (js ''`'') then Code (between 1 p)
      else Literal p)"
proof -
  have l3: "startsWith p (js ''```'') \<Longrightarrow> 3 \<le> length p"
    using startsWith_length [of p "js ''```''"] by (simp add: js_def)
  have l2: "startsWith p (js ''**'') \<Longrightarrow> 2 \<le> length p"
    using startsWith_length [of p "js ''**''"] by (simp add: js_def)
  have l1: "startsWith p (js ''*'') \<Longrightarrow> 1 \<le> length p"
    using startsWith_length [of p "js ''*''"] by (simp add: js_def)
  have l1': "startsWith p (js ''`'') \<Longrightarrow> 1 \<le> length p"
    using startsWith_length [of p "js ''`''"] by (simp add: js_def)
  show ?thesis
    using l3 l2 l1 l1' substring_between [of 3 p] substring_between [of 2 p]
      substring_between [of 1 p]
    by (auto simp: renderPart_def)
qed

lemma renderPart_tokens:
  "renderPart (js ''```'' @ body @ js ''```'') = Pre (trim body)"
  "renderPart (js ''**'' @ body @ js ''**'') = Strong body"
  "\<not> (startsWith (js ''*'' @ body @ js ''*'') (js ''**'')
       \<and> endsWith (js ''*'' @ body @ js ''*'') (js ''**''))
   \<Longrightarrow> renderPart (js ''*'' @ body @ js ''*'') = Em body"
  "\<not> (startsWith (js ''`'' @ body @ js ''`'') (js ''```'')
       \<and> endsWith (js ''`'' @ body @ js ''`'') (js ''```''))
   \<Longrightarrow> renderPart (js ''`'' @ body @ js ''`'') = Code body"
proof -
  have b3: "between 3 (js ''```'' @ body @ js ''```'') = body"
    by (simp add: between_def js_def)
  have b2: "between 2 (js ''**'' @ body @ js ''**'') = body"
    by (simp add: between_def js_def)
  have b1: "between 1 (js ''*'' @ body @ js ''*'') = body"
    by (simp add: between_def js_def)
  have b1': "between 1 (js ''`'' @ body @ js ''`'') = body"
    by (simp add: between_def js_def)
  show "renderPart (js ''```'' @ body @ js ''```'') = Pre (trim body)"
    unfolding renderPart_between b3 by (simp add: startsWith_def endsWith_def js_def)
  show "renderPart (js ''**'' @ body @ js ''**'') = Strong body"
    unfolding renderPart_between b2 by (simp add: startsWith_def endsWith_def js_def)
  show "renderPart (js ''*'' @ body @ js ''*'') = Em body"
    if "\<not> (startsWith (js ''*'' @ body @ js ''*'') (js ''**'')
       \<and> endsWith (js ''*'' @ body @ js ''*'') (js ''**''))"
    unfolding renderPart_between b1 using that
    by (simp add: startsWith_def endsWith_def js_def)
  show "renderPart (js ''`'' @ body @ js ''`'') = Code body"
    if "\<not> (startsWith (js ''`'' @ body @ js ''`'') (js ''```'')
       \<and> endsWith (js ''`'' @ body @ js ''`'') (js ''```''))"
    unfolding renderPart_between b1' using that
    by (simp add: startsWith_def endsWith_def js_def)
qed

text \<open>
  Claim C9, as the code has it. The rendered elements are a function of the
  content string. The string is split by the one pattern: where the pattern
  matches, the text before the match and the match are two parts; where it does
  not, the code unit joins the literal part that follows. The pattern matches the
  first of four token shapes that the text starts with: a fence of three
  backticks, \<open>**\<close>, \<open>*\<close> and one backtick, each around the shortest body up to
  the next occurrence of the same delimiter, with no line terminator in the body
  except in a fence. The empty parts are dropped and the parts that are left
  concatenate to the content string. Each part is classified by the delimiter it
  both starts and ends with, in the order fence, \<open>**\<close>, \<open>*\<close>, backtick, and
  rendered as a code block (trimmed), strong, emphasised or inline-code element
  of the text between the delimiters; a token of the pattern is rendered as the
  element of its shape with its body. A part is rendered as literal text exactly
  when it does not both start and end with an asterisk and does not both start
  and end with a backtick.
\<close>

theorem markdownElements_split_and_classify:
  "markdownElements s = map renderPart (filter (\<lambda>part. part \<noteq> []) (splitPattern s))
   \<and> concat (filter (\<lambda>part. part \<noteq> []) (splitPattern s)) = s
   \<and> splitPattern [] = [[]]
   \<and> (matchPattern (c # cs) = Some (m, rest) \<longrightarrow>
        splitPattern (c # cs) = [] # m # splitPattern rest)
   \<and> (matchPattern (c # cs) = None \<longrightarrow>
        splitPattern (c # cs) = (c # hd (splitPattern cs)) # tl (splitPattern cs))
   \<and> (matchPattern t = Some (k, r) \<longleftrightarrow>
        t = k @ r
        \<and> (isToken (js ''```'') (\<lambda>c. True) k
           \<or> \<not> tokenPrefix (js ''```'') (\<lambda>c. True) t
             \<and> (isToken (js ''**'') (\<lambda>c. \<not> isLineTerminator c) k
                \<or> \<not> tokenPrefix (js ''**'') (\<lambda>c. \<not> isLineTerminator c) t
                  \<and> (isToken (js ''*'') (\<lambda>c. \<not> isLineTerminator c) k
                     \<or> \<not> tokenPrefix (js ''*'') (\<lambda>c. \<not> isLineTerminator c) t
                       \<and> isToken (js ''`'') (\<lambda>c. \<not> isLineTerminator c) k))))
   \<and> (isToken d ok k \<longleftrightarrow>
        (\<exists>body. k = d @ body @ d \<and> list_all ok body
                 \<and> \<not> includes_str (butlast (body @ d)) d))
   \<and> (tokenPrefix d ok t \<longleftrightarrow> (\<exists>k r. t = k @ r \<and> isToken d ok k))
   \<and> renderPart p =
        (if startsWith p (js ''```'') \<and> endsWith p (js ''```'') then Pre (trim (between 3 p))
         else if startsWith p (js ''**'') \<and> endsWith p (js ''**'') then Strong (between 2 p)
         else if startsWith p (js ''*'') \<and> endsWith p (js ''*'') then Em (between 1 p)
         else if startsWith p (js ''`'') \<and> endsWith p (js ''`'') then Code (between 1 p)
         else Literal p)
   \<and> renderPart (js ''```'' @ body @ js ''```'') = Pre (trim body)
   \<and> renderPart (js ''**'' @ body @ js ''**'') = Strong body
   \<and> (\<not> (startsWith (js ''*'' @ body @ js ''*'') (js ''**'')
          \<and> endsWith (js ''*'' @ body @ js ''*'') (js ''**''))
        \<longrightarrow> renderPart (js ''*'' @ body @ js ''*'') = Em body)
   \<and> (\<not> (startsWith (js ''`'' @ body @ js ''`'') (js ''```'')
          \<and> endsWith (js ''`'' @ body @ js ''`'') (js ''```''))
        \<longrightarrow> renderPart (js ''`'' @ body @ js ''`'') = Code body)
   \<and> (renderPart p = Literal p \<longleftrightarrow>
        \<not> (startsWith p (js ''*'') \<and> endsWith p (js ''*''))
        \<and> \<not> (startsWith p (js ''`'') \<and> endsWith p (js ''`'')))"
proof -
  have "concat (filter (\<lambda>part. part \<noteq> []) xs) = concat xs" for xs :: "jsstring list"
    by (induction xs) simp_all
  then have whole: "concat (filter (\<lambda>part. part \<noteq> []) (splitPattern s)) = s"
    by (simp add: splitPattern_def splitLoop_concat)
  have elements: "markdownElements s
      = map renderPart (filter (\<lambda>part. part \<noteq> []) (splitPattern s))"
    by (simp add: markdownElements_def)
  note split = splitPattern_equations(1) splitPattern_equations(2) [of c cs m rest]
    splitPattern_equations(3) [of c cs]
  note tokens = renderPart_tokens(1) [of body] renderPart_tokens(2) [of body]
    renderPart_tokens(3) [of body] renderPart_tokens(4) [of body]
  show ?thesis
    apply (intro conjI impI)
    subgoal by (rule elements)
    subgoal by (rule whole)
    subgoal by (rule split(1))
    subgoal by (erule split(2))
    subgoal by (erule split(3))
    subgoal by (rule matchPattern_iff)
    subgoal by (rule isToken_iff)
    subgoal by (rule tokenPrefix_iff)
    subgoal by (rule renderPart_between)
    subgoal by (rule tokens(1))
    subgoal by (rule tokens(2))
    subgoal by (erule tokens(3))
    subgoal by (erule tokens(4))
    subgoal by (rule renderPart_Literal_iff)
    done
qed

theorem markdownElements_split_and_classify_witness:
  "splitPattern (0x2A # js ''b* x'') = [[], js ''*b*'', js '' x'']
   \<and> splitPattern (0x61 # js ''*'') = [0x61 # js ''*'']
   \<and> renderPart (js ''*'' @ js ''b'' @ js ''*'') = Em (js ''b'')
   \<and> renderPart (js ''`'' @ js ''b'' @ js ''`'') = Code (js ''b'')
   \<and> renderPart (js ''a * b'') = Literal (js ''a * b'')
   \<and> concat (filter (\<lambda>part. part \<noteq> []) (splitPattern (js ''a **b** *c* `d` ```e```'')))
       = js ''a **b** *c* `d` ```e```''
   \<and> markdownElements (js ''a **b** *c* `d` ```e```'')
       = [Literal (js ''a ''), Strong (js ''b''), Literal (js '' ''), Em (js ''c''),
          Literal (js '' ''), Code (js ''d''), Literal (js '' ''), Pre (js ''e'')]"
proof -
  have rendered:
    "markdownElements (js ''a **b** *c* `d` ```e```'')
       = [Literal (js ''a ''), Strong (js ''b''), Literal (js '' ''), Em (js ''c''),
          Literal (js '' ''), Code (js ''d''), Literal (js '' ''), Pre (js ''e'')]"
    by code_simp
  have found: "matchPattern (0x2A # js ''b* x'') = Some (js ''*b*'', js '' x'')"
    by code_simp
  have unmatched: "matchPattern (0x61 # js ''*'') = None"
    by code_simp
  have after: "splitPattern (js '' x'') = [js '' x'']" "splitPattern (js ''*'') = [js ''*'']"
    by code_simp+
  have em: "\<not> (startsWith (js ''*'' @ js ''b'' @ js ''*'') (js ''**'')
               \<and> endsWith (js ''*'' @ js ''b'' @ js ''*'') (js ''**''))"
    by (simp add: startsWith_def js_def)
  have code: "\<not> (startsWith (js ''`'' @ js ''b'' @ js ''`'') (js ''```'')
               \<and> endsWith (js ''`'' @ js ''b'' @ js ''`'') (js ''```''))"
    by (simp add: startsWith_def js_def)
  have lit: "\<not> (startsWith (js ''a * b'') (js ''*'') \<and> endsWith (js ''a * b'') (js ''*''))"
    "\<not> (startsWith (js ''a * b'') (js ''`'') \<and> endsWith (js ''a * b'') (js ''`''))"
    by (simp_all add: startsWith_def js_def)
  note token = markdownElements_split_and_classify
    [where c = "0x2A" and cs = "js ''b* x''" and m = "js ''*b*''" and rest = "js '' x''"
       and body = "js ''b''" and p = "js ''a * b''" and s = "js ''a **b** *c* `d` ```e```''"
       and t = "[]" and k = "[]" and r = "[]" and d = "[]" and ok = "\<lambda>c. True"]
  note gap = markdownElements_split_and_classify
    [where c = "0x61" and cs = "js ''*''" and m = "[]" and rest = "[]"
       and body = "[]" and p = "[]" and s = "[]"
       and t = "[]" and k = "[]" and r = "[]" and d = "[]" and ok = "\<lambda>c. True"]
  have "splitPattern (0x2A # js ''b* x'') = [] # js ''*b*'' # splitPattern (js '' x'')"
    by (rule token [THEN conjunct2, THEN conjunct2, THEN conjunct2, THEN conjunct1, THEN mp,
         OF found])
  with after(1) have s1: "splitPattern (0x2A # js ''b* x'') = [[], js ''*b*'', js '' x'']"
    by simp
  have "splitPattern (0x61 # js ''*'')
          = (0x61 # hd (splitPattern (js ''*''))) # tl (splitPattern (js ''*''))"
    by (rule gap [THEN conjunct2, THEN conjunct2, THEN conjunct2, THEN conjunct2,
         THEN conjunct1, THEN mp, OF unmatched])
  with after(2) have s2: "splitPattern (0x61 # js ''*'') = [0x61 # js ''*'']"
    by simp
  have r1: "renderPart (js ''*'' @ js ''b'' @ js ''*'') = Em (js ''b'')"
    by (rule token [THEN conjunct2, THEN conjunct2, THEN conjunct2, THEN conjunct2,
         THEN conjunct2, THEN conjunct2, THEN conjunct2, THEN conjunct2, THEN conjunct2,
         THEN conjunct2, THEN conjunct2, THEN conjunct1, THEN mp, OF em])
  have r2: "renderPart (js ''`'' @ js ''b'' @ js ''`'') = Code (js ''b'')"
    by (rule token [THEN conjunct2, THEN conjunct2, THEN conjunct2, THEN conjunct2,
         THEN conjunct2, THEN conjunct2, THEN conjunct2, THEN conjunct2, THEN conjunct2,
         THEN conjunct2, THEN conjunct2, THEN conjunct2, THEN conjunct1, THEN mp, OF code])
  have r3: "renderPart (js ''a * b'') = Literal (js ''a * b'')"
    using token [THEN conjunct2, THEN conjunct2, THEN conjunct2, THEN conjunct2,
         THEN conjunct2, THEN conjunct2, THEN conjunct2, THEN conjunct2, THEN conjunct2,
         THEN conjunct2, THEN conjunct2, THEN conjunct2, THEN conjunct2] lit by simp
  have whole:
    "concat (filter (\<lambda>part. part \<noteq> []) (splitPattern (js ''a **b** *c* `d` ```e```'')))
       = js ''a **b** *c* `d` ```e```''"
    by (rule token [THEN conjunct2, THEN conjunct1])
  from s1 s2 r1 r2 r3 whole rendered show ?thesis by (intro conjI)
qed

text \<open>
  A delimiter that is never closed is not always rendered as literal text. A
  content string that is one asterisk is rendered as an emphasis element. Of the
  content made of three backticks and the word \<open>code\<close>, a fence that is opened
  and never closed, the first two backticks become an empty inline-code element
  and only the rest is literal.
\<close>

theorem markdownElements_unterminated_delimiter:
  "markdownElements (js ''*'') = [Em (js ''*'')]
   \<and> markdownElements (js ''*'') \<noteq> [Literal (js ''*'')]
   \<and> markdownElements (js ''```code'') = [Code [], Literal (js ''`code'')]
   \<and> markdownElements (js ''```code'') \<noteq> [Literal (js ''```code'')]"
  by code_simp

end
